theory Spec2Isabelle
  imports Main
begin

section \<open>The keyboard container component\<close>

text \<open>
  A shallow embedding of \<^verbatim>\<open>src/keyboard-container.component.ts\<close>: the class
  \<^verbatim>\<open>MdKeyboardContainerComponent\<close> as a record of its fields, each method as a function
  from the component to the component after the call (with the returned value or the
  thrown error where there is one). A leading underscore of the source is written
  \<open>u_\<close>: \<^verbatim>\<open>_onEnter\<close> is \<open>u_onEnter\<close>.
\<close>

subsection \<open>Animation states and events\<close>

datatype KeyboardState = Initial | Visible | Complete | Void

fun state_name :: "KeyboardState \<Rightarrow> string" where
  "state_name Initial = ''initial''"
| "state_name Visible = ''visible''"
| "state_name Complete = ''complete''"
| "state_name Void = ''void''"

text \<open>
  The event the animation engine hands to \<^verbatim>\<open>(@state.done)\<close>. Its states are strings,
  as in \<^verbatim>\<open>@angular/animations\<close>; \<^verbatim>\<open>onAnimationEnd\<close> reads \<open>toState\<close> only.
\<close>

record AnimationEvent =
  fromState :: string
  toState :: string
  totalTime :: nat
  phaseName :: string
  triggerName :: string

subsection \<open>Subjects\<close>

text \<open>
  Modelled from the spec: the \<^verbatim>\<open>Subject\<close> of rxjs, which is not among the sources.
  The spec's completion signal is a broadcast channel with one terminal event: before
  it, subscribers wait; after it, a further subscriber receives the completion at once.
  A subject holds its current observers; \<open>next\<close> hands a value to each of them unless the
  subject is stopped; \<open>complete\<close> stops it, hands the completion to each of them and drops
  them; subscribing to a stopped subject delivers the completion immediately.
  Subscribers are numbered in the order of subscription (\<open>subscribed\<close> counts them),
  \<open>received\<close> records every notification handed to a subscriber, in order, and
  \<open>nextCount\<close> counts the values the subject has broadcast.
\<close>

datatype notification = OnNext | OnComplete

record subject =
  observers :: "nat list"
  isStopped :: bool
  received :: "(nat \<times> notification) list"
  subscribed :: nat
  nextCount :: nat

definition new_subject :: subject where
  "new_subject =
     \<lparr>observers = [], isStopped = False, received = [], subscribed = 0, nextCount = 0\<rparr>"

definition subject_next :: "subject \<Rightarrow> subject" where
  "subject_next s =
     (if isStopped s then s
      else s\<lparr>received := received s @ map (\<lambda>ob. (ob, OnNext)) (observers s),
             nextCount := Suc (nextCount s)\<rparr>)"

definition subject_complete :: "subject \<Rightarrow> subject" where
  "subject_complete s =
     s\<lparr>isStopped := True,
       received := received s @ map (\<lambda>ob. (ob, OnComplete)) (observers s),
       observers := []\<rparr>"

definition subject_subscribe :: "subject \<Rightarrow> subject" where
  "subject_subscribe s =
     (if isStopped s
      then s\<lparr>received := received s @ [(subscribed s, OnComplete)],
             subscribed := Suc (subscribed s)\<rparr>
      else s\<lparr>observers := observers s @ [subscribed s],
             subscribed := Suc (subscribed s)\<rparr>)"

text \<open>What subscriber \<open>i\<close> has been handed so far.\<close>

definition notifications :: "subject \<Rightarrow> nat \<Rightarrow> notification list" where
  "notifications s i = map snd (filter (\<lambda>e. fst e = i) (received s))"

subsection \<open>Collaborators\<close>

datatype ComponentPortal = ComponentPortal nat
datatype TemplatePortal = TemplatePortal nat
datatype ComponentRef = ComponentRef ComponentPortal

text \<open>
  Modelled from the spec: \<^verbatim>\<open>PortalHostDirective\<close> of \<^verbatim>\<open>@angular/material\<close>, which
  is not among the sources. The spec's rendering collaborator offers
  \<^verbatim>\<open>hasContent(slot)\<close> and \<^verbatim>\<open>materialize(content, intoSlot)\<close>, which returns a handle
  to the materialized instance; the slot holds at most one content item.
\<close>

record PortalHostDirective =
  attachedPortal :: "ComponentPortal option"

definition hasAttached :: "PortalHostDirective \<Rightarrow> bool" where
  "hasAttached ph = (attachedPortal ph \<noteq> None)"

definition portalHost_attachComponentPortal ::
  "ComponentPortal \<Rightarrow> PortalHostDirective \<Rightarrow> ComponentRef \<times> PortalHostDirective" where
  "portalHost_attachComponentPortal portal ph =
     (ComponentRef portal, ph\<lparr>attachedPortal := Some portal\<rparr>)"

text \<open>
  \<^verbatim>\<open>MdKeyboardConfig\<close> is declared in \<^verbatim>\<open>keyboard.config.ts\<close>, not among the sources;
  the component reads its \<^verbatim>\<open>extraClasses\<close> only, an array of class names that may
  be absent.
\<close>

record MdKeyboardConfig =
  extraClasses :: "string list option"

text \<open>
  The host element, seen through \<^verbatim>\<open>Renderer2.addClass\<close>: the class names handed to
  the renderer for this element, in the order of the calls.
\<close>

record ElementRef =
  addedClasses :: "string list"

definition renderer_addClass ::
  "string \<Rightarrow> ElementRef \<Rightarrow>
   ElementRef" where
  "renderer_addClass cssClass el = el\<lparr>addedClasses := addedClasses el @ [cssClass]\<rparr>"

text \<open>
  The zone, as far as the component uses it: \<^verbatim>\<open>run\<close> calls its argument at once, and
  \<^verbatim>\<open>onMicrotaskEmpty.first().subscribe(f)\<close> registers \<open>f\<close> for the next emission of
  \<^verbatim>\<open>onMicrotaskEmpty\<close> only. The one closure the component registers is that of
  \<^verbatim>\<open>_completeExit\<close>; it captures the subject held in the field \<^verbatim>\<open>onExit\<close>, which is
  never reassigned.
\<close>

datatype zone_callback = CompleteExitCallback

record NgZone =
  firstSubscribers :: "zone_callback list"

definition onMicrotaskEmpty_first_subscribe ::
  "zone_callback \<Rightarrow> NgZone \<Rightarrow>
   NgZone" where
  "onMicrotaskEmpty_first_subscribe f z = z\<lparr>firstSubscribers := firstSubscribers z @ [f]\<rparr>"

subsection \<open>The component\<close>

datatype error = MdKeyboardContentAlreadyAttached | NotYetImplemented | TypeError

record MdKeyboardContainerComponent =
  attrRole :: string
  animState :: string
  u_portalHost :: "PortalHostDirective option"
  onExit :: subject
  onEnter :: subject
  animationState :: KeyboardState
  keyboardConfig :: "MdKeyboardConfig option"
  u_ngZone :: NgZone
  u_elementRef :: ElementRef

text \<open>
  A component as its constructor and the creation of its view leave it: the view child
  \<^verbatim>\<open>_portalHost\<close> is there and empty, \<^verbatim>\<open>keyboardConfig\<close> is not assigned yet.
\<close>

definition new_container :: MdKeyboardContainerComponent where
  "new_container =
     \<lparr>attrRole = ''alert'', animState = ''alert'',
      u_portalHost = Some \<lparr>attachedPortal = None\<rparr>,
      onExit = new_subject, onEnter = new_subject,
      animationState = Initial, keyboardConfig = None,
      u_ngZone = \<lparr>firstSubscribers = []\<rparr>,
      u_elementRef = \<lparr>addedClasses = []\<rparr>\<rparr>"

definition addClass ::
  "string \<Rightarrow> MdKeyboardContainerComponent \<Rightarrow>
   MdKeyboardContainerComponent" where
  "addClass cssClass c = c\<lparr>u_elementRef := renderer_addClass cssClass (u_elementRef c)\<rparr>"

text \<open>
  \<^verbatim>\<open>attachComponentPortal\<close>: the result is the thrown error or the returned reference,
  with the component as it is when the call ends. Reading a member of an undefined
  field (\<^verbatim>\<open>_portalHost\<close>, \<^verbatim>\<open>keyboardConfig\<close>) throws a \<^verbatim>\<open>TypeError\<close>.
\<close>

definition attachComponentPortal ::
  "ComponentPortal \<Rightarrow> MdKeyboardContainerComponent \<Rightarrow>
   (error + ComponentRef) \<times> MdKeyboardContainerComponent" where
  "attachComponentPortal portal c =
     (case u_portalHost c of
        None \<Rightarrow> (Inl TypeError, c)
      | Some ph \<Rightarrow>
          if hasAttached ph then (Inl MdKeyboardContentAlreadyAttached, c)
          else
            (case keyboardConfig c of
               None \<Rightarrow> (Inl TypeError, c)
             | Some cfg \<Rightarrow>
                 let c1 = (case extraClasses cfg of
                             None \<Rightarrow> c
                           | Some classes \<Rightarrow> fold addClass classes c);
                     (ref, ph') = portalHost_attachComponentPortal portal ph
                 in (Inr ref, c1\<lparr>u_portalHost := Some ph'\<rparr>)))"

definition attachTemplatePortal ::
  "TemplatePortal \<Rightarrow> MdKeyboardContainerComponent \<Rightarrow>
   (error + unit) \<times> MdKeyboardContainerComponent" where
  "attachTemplatePortal portal c = (Inl NotYetImplemented, c)"

definition u_completeExit ::
  "MdKeyboardContainerComponent \<Rightarrow>
   MdKeyboardContainerComponent" where
  "u_completeExit c =
     c\<lparr>u_ngZone := onMicrotaskEmpty_first_subscribe CompleteExitCallback (u_ngZone c)\<rparr>"

definition ngZone_run ::
  "(MdKeyboardContainerComponent \<Rightarrow> MdKeyboardContainerComponent) \<Rightarrow>
   MdKeyboardContainerComponent \<Rightarrow> MdKeyboardContainerComponent" where
  "ngZone_run f c = f c"

definition onAnimationEnd ::
  "AnimationEvent \<Rightarrow> MdKeyboardContainerComponent \<Rightarrow>
   MdKeyboardContainerComponent" where
  "onAnimationEnd event c =
     (let c1 = (if toState event = ''void'' \<or> toState event = ''complete''
                then u_completeExit c else c)
      in if toState event = ''visible''
         then ngZone_run
                (\<lambda>c'. c'\<lparr>onEnter := subject_complete (subject_next (onEnter c'))\<rparr>) c1
         else c1)"

definition enter ::
  "MdKeyboardContainerComponent \<Rightarrow>
   MdKeyboardContainerComponent" where
  "enter c = c\<lparr>animationState := Visible\<rparr>"

text \<open>An observable made by \<^verbatim>\<open>asObservable()\<close> stands for the subject it was made from.\<close>

datatype subject_field = OnExitField | OnEnterField

datatype observable = AsObservable subject_field

definition u_onEnter ::
  "MdKeyboardContainerComponent \<Rightarrow>
   observable \<times> MdKeyboardContainerComponent" where
  "u_onEnter c = (AsObservable OnEnterField, c\<lparr>animationState := Visible\<rparr>)"

definition u_onExit ::
  "MdKeyboardContainerComponent \<Rightarrow>
   observable \<times> MdKeyboardContainerComponent" where
  "u_onExit c = (AsObservable OnExitField, c)"

definition exit ::
  "MdKeyboardContainerComponent \<Rightarrow>
   observable \<times> MdKeyboardContainerComponent" where
  "exit c = u_onExit (c\<lparr>animationState := Complete\<rparr>)"

definition ngOnDestroy ::
  "MdKeyboardContainerComponent \<Rightarrow>
   MdKeyboardContainerComponent" where
  "ngOnDestroy c = u_completeExit c"

subsection \<open>The environment: subscribers and the zone\<close>

fun subscribe ::
  "observable \<Rightarrow> MdKeyboardContainerComponent \<Rightarrow>
   MdKeyboardContainerComponent" where
  "subscribe (AsObservable OnExitField) c = c\<lparr>onExit := subject_subscribe (onExit c)\<rparr>"
| "subscribe (AsObservable OnEnterField) c = c\<lparr>onEnter := subject_subscribe (onEnter c)\<rparr>"

fun run_callback ::
  "zone_callback \<Rightarrow> MdKeyboardContainerComponent \<Rightarrow>
   MdKeyboardContainerComponent" where
  "run_callback CompleteExitCallback c =
     c\<lparr>onExit := subject_complete (subject_next (onExit c))\<rparr>"

text \<open>
  An emission of \<^verbatim>\<open>onMicrotaskEmpty\<close>: every callback registered through \<^verbatim>\<open>first()\<close>
  runs, in the order of registration, and is dropped.
\<close>

definition onMicrotaskEmpty_emit ::
  "MdKeyboardContainerComponent \<Rightarrow>
   MdKeyboardContainerComponent" where
  "onMicrotaskEmpty_emit c =
     fold run_callback (firstSubscribers (u_ngZone c))
       (c\<lparr>u_ngZone := (u_ngZone c)\<lparr>firstSubscribers := []\<rparr>\<rparr>)"

text \<open>
  What can happen to a component: a call of one of its methods, an assignment to its
  public field \<^verbatim>\<open>keyboardConfig\<close>, a subscription to one of its two observables, and
  an emission of the zone's \<^verbatim>\<open>onMicrotaskEmpty\<close>. A call that throws leaves the
  component as it is at the throw.
\<close>

datatype call =
    CallAttachComponentPortal ComponentPortal
  | CallAttachTemplatePortal TemplatePortal
  | CallOnAnimationEnd AnimationEvent
  | CallEnter
  | CallOnEnter
  | CallExit
  | CallOnExit
  | CallNgOnDestroy
  | SetKeyboardConfig MdKeyboardConfig
  | Subscribe observable
  | MicrotaskEmpty

fun step ::
  "call \<Rightarrow> MdKeyboardContainerComponent \<Rightarrow>
   MdKeyboardContainerComponent" where
  "step (CallAttachComponentPortal portal) c = snd (attachComponentPortal portal c)"
| "step (CallAttachTemplatePortal portal) c = snd (attachTemplatePortal portal c)"
| "step (CallOnAnimationEnd event) c = onAnimationEnd event c"
| "step CallEnter c = enter c"
| "step CallOnEnter c = snd (u_onEnter c)"
| "step CallExit c = snd (exit c)"
| "step CallOnExit c = snd (u_onExit c)"
| "step CallNgOnDestroy c = ngOnDestroy c"
| "step (SetKeyboardConfig cfg) c = c\<lparr>keyboardConfig := Some cfg\<rparr>"
| "step (Subscribe obs) c = subscribe obs c"
| "step MicrotaskEmpty c = onMicrotaskEmpty_emit c"

definition exec ::
  "call list \<Rightarrow> MdKeyboardContainerComponent \<Rightarrow>
   MdKeyboardContainerComponent" where
  "exec calls c = fold step calls c"

subsection \<open>Predicates on components and traces\<close>

text \<open>
  What every subject of a component satisfies, whatever has happened: not yet stopped,
  it has broadcast nothing and its observers are all the subscribers so far; stopped,
  it has broadcast once, has no observers left, and every subscriber has been handed
  the completion, after the value if the subscriber was there when it was sent.
\<close>

definition subject_inv :: "subject \<Rightarrow> bool" where
  "subject_inv s =
     (if isStopped s
      then nextCount s = 1 \<and> observers s = [] \<and>
           (\<forall>i. notifications s i =
              (if i < subscribed s
               then (if (i, OnNext) \<in> set (received s)
                     then [OnNext, OnComplete] else [OnComplete])
               else []))
      else nextCount s = 0 \<and> received s = [] \<and> observers s = [0..<subscribed s])"

definition container_inv :: "MdKeyboardContainerComponent \<Rightarrow> bool" where
  "container_inv c = (subject_inv (onExit c) \<and> subject_inv (onEnter c))"

text \<open>Whether the portal host of the component holds content.\<close>

definition attached :: "MdKeyboardContainerComponent \<Rightarrow> bool" where
  "attached c = (case u_portalHost c of None \<Rightarrow> False | Some ph \<Rightarrow> hasAttached ph)"

text \<open>
  The calls that ask for the exit callbacks: the destruction of the component, and a
  report of the animation engine that a transition into \<^verbatim>\<open>void\<close> or
  \<^verbatim>\<open>complete\<close> is done.
\<close>

fun exit_trigger :: "call \<Rightarrow> bool" where
  "exit_trigger CallNgOnDestroy = True"
| "exit_trigger (CallOnAnimationEnd event) =
     (toState event = ''void'' \<or> toState event = ''complete'')"
| "exit_trigger _ = False"

text \<open>The exit subject is stopped, or a callback that will stop it waits in the zone.\<close>

definition exit_pending :: "MdKeyboardContainerComponent \<Rightarrow> bool" where
  "exit_pending c = (firstSubscribers (u_ngZone c) \<noteq> [] \<or> isStopped (onExit c))"

text \<open>How many calls of \<^verbatim>\<open>attachComponentPortal\<close> in a trace return a reference.\<close>

fun attach_succeeds ::
  "call \<Rightarrow> MdKeyboardContainerComponent \<Rightarrow>
   bool" where
  "attach_succeeds (CallAttachComponentPortal portal) c =
     (case fst (attachComponentPortal portal c) of Inl e \<Rightarrow> False | Inr r \<Rightarrow> True)"
| "attach_succeeds _ c = False"

fun attach_successes ::
  "call list \<Rightarrow> MdKeyboardContainerComponent \<Rightarrow>
   nat" where
  "attach_successes [] c = 0"
| "attach_successes (x # xs) c =
     (if attach_succeeds x c then 1 else 0) + attach_successes xs (step x c)"

text \<open>
  The animation engine is bound to \<^verbatim>\<open>animationState\<close> (\<^verbatim>\<open>'[@state]': 'animationState'\<close>)
  and reports the end of the transitions the bound value goes through. So the
  \<open>toState\<close> of a report is a value that \<^verbatim>\<open>animationState\<close> holds or has held (\<open>seen\<close>),
  or \<^verbatim>\<open>void\<close>, the state of an element that leaves the view.
\<close>

fun engine_reports_requested ::
  "KeyboardState list \<Rightarrow> MdKeyboardContainerComponent \<Rightarrow> call list \<Rightarrow>
   bool" where
  "engine_reports_requested seen c [] = True"
| "engine_reports_requested seen c (x # xs) =
     ((case x of
         CallOnAnimationEnd event \<Rightarrow> toState event \<in> set (map state_name (Void # seen))
       | _ \<Rightarrow> True) \<and>
      engine_reports_requested (animationState (step x c) # seen) (step x c) xs)"

section \<open>Invariants\<close>

subsection \<open>Subjects\<close>

lemma notifications_broadcast:
  "map snd (filter (\<lambda>e. fst e = i) (map (\<lambda>ob. (ob, x)) [0..<n])) = (if i < n then [x] else [])"
  by (induction n) auto

lemma notifications_none:
  "notifications s i = [] \<Longrightarrow> (i, x) \<notin> set (received s)"
  by (auto simp add: notifications_def filter_empty_conv)

lemma subject_inv_new: "subject_inv new_subject"
  by (simp add: subject_inv_def new_subject_def)

lemma finalize_stopped:
  "subject_inv s \<Longrightarrow> isStopped s \<Longrightarrow> subject_complete (subject_next s) = s"
  by (simp add: subject_inv_def subject_next_def subject_complete_def)

lemma finalize_is_stopped: "isStopped (subject_complete (subject_next s))"
  by (simp add: subject_complete_def)

lemma finalize_inv: "subject_inv s \<Longrightarrow> subject_inv (subject_complete (subject_next s))"
proof (cases "isStopped s")
  case True
  assume "subject_inv s"
  with True show ?thesis by (simp add: finalize_stopped)
next
  case False
  assume inv: "subject_inv s"
  show ?thesis using False inv
    by (auto simp add: subject_inv_def subject_next_def subject_complete_def
      notifications_def notifications_broadcast)
qed

lemma subscribe_inv:
  assumes inv: "subject_inv s"
  shows "subject_inv (subject_subscribe s)"
proof (cases "isStopped s")
  case False
  with inv show ?thesis
    by (simp add: subject_inv_def subject_subscribe_def)
next
  case True
  let ?n = "subscribed s"
  from inv True have old: "\<And>i. notifications s i =
      (if i < ?n then (if (i, OnNext) \<in> set (received s) then [OnNext, OnComplete] else [OnComplete])
       else [])"
    and rest: "nextCount s = 1" "observers s = []"
    by (simp_all add: subject_inv_def)
  from old [of ?n] have fresh: "(?n, OnNext) \<notin> set (received s)"
    by (simp add: notifications_none)
  have step: "\<And>i. notifications (subject_subscribe s) i =
      notifications s i @ (if i = ?n then [OnComplete] else [])"
    using True by (simp add: subject_subscribe_def notifications_def)
  have "\<And>i. notifications (subject_subscribe s) i =
      (if i < Suc ?n
       then (if (i, OnNext) \<in> set (received (subject_subscribe s))
             then [OnNext, OnComplete] else [OnComplete])
       else [])"
    using True fresh by (auto simp add: step old) (auto simp add: subject_subscribe_def)
  then show ?thesis using True rest
    by (simp add: subject_inv_def) (simp add: subject_subscribe_def)
qed

lemma subscribe_stopped: "isStopped (subject_subscribe s) = isStopped s"
  by (simp add: subject_subscribe_def)

subsection \<open>The zone's callbacks, the renderer and the steps\<close>

lemma fold_run_callback_onExit_inv:
  "subject_inv (onExit c) \<Longrightarrow> subject_inv (onExit (fold run_callback fs c))"
proof (induction fs arbitrary: c)
  case Nil
  then show ?case by simp
next
  case (Cons f fs)
  then show ?case by (cases f) (simp add: finalize_inv)
qed

lemma fold_run_callback_frame:
  "onEnter (fold run_callback fs c) = onEnter c \<and>
   animationState (fold run_callback fs c) = animationState c \<and>
   u_portalHost (fold run_callback fs c) = u_portalHost c \<and>
   keyboardConfig (fold run_callback fs c) = keyboardConfig c \<and>
   u_elementRef (fold run_callback fs c) = u_elementRef c \<and>
   u_ngZone (fold run_callback fs c) = u_ngZone c"
proof (induction fs arbitrary: c)
  case Nil
  show ?case by simp
next
  case (Cons f fs)
  show ?case by (cases f) (simp add: Cons.IH)
qed

lemma fold_run_callback_stops:
  "fs \<noteq> [] \<or> isStopped (onExit c) \<Longrightarrow> isStopped (onExit (fold run_callback fs c))"
proof (induction fs arbitrary: c)
  case Nil
  then show ?case by simp
next
  case (Cons f fs)
  show ?case by (cases f) (simp add: Cons.IH finalize_is_stopped)
qed

lemma fold_run_callback_stopped:
  "subject_inv (onExit c) \<Longrightarrow> isStopped (onExit c) \<Longrightarrow>
   onExit (fold run_callback fs c) = onExit c"
proof (induction fs arbitrary: c)
  case Nil
  show ?case by simp
next
  case (Cons f fs)
  then show ?case by (cases f) (simp add: finalize_stopped)
qed

lemma fold_addClass_frame:
  "onEnter (fold addClass cs c) = onEnter c \<and>
   onExit (fold addClass cs c) = onExit c \<and>
   animationState (fold addClass cs c) = animationState c \<and>
   u_portalHost (fold addClass cs c) = u_portalHost c \<and>
   keyboardConfig (fold addClass cs c) = keyboardConfig c \<and>
   u_ngZone (fold addClass cs c) = u_ngZone c"
  by (induction cs arbitrary: c) (simp_all add: addClass_def)

lemma attach_frame:
  "onEnter (snd (attachComponentPortal p c)) = onEnter c \<and>
   onExit (snd (attachComponentPortal p c)) = onExit c \<and>
   animationState (snd (attachComponentPortal p c)) = animationState c \<and>
   keyboardConfig (snd (attachComponentPortal p c)) = keyboardConfig c \<and>
   u_ngZone (snd (attachComponentPortal p c)) = u_ngZone c"
  by (simp add: attachComponentPortal_def portalHost_attachComponentPortal_def
      fold_addClass_frame split: option.splits)

lemma step_inv: "container_inv c \<Longrightarrow> container_inv (step x c)"
proof (cases x)
  case (CallAttachComponentPortal p)
  assume "container_inv c"
  then show ?thesis using CallAttachComponentPortal
    by (simp add: container_inv_def attach_frame)
next
  case (CallOnAnimationEnd ev)
  assume "container_inv c"
  then show ?thesis using CallOnAnimationEnd
    by (simp add: container_inv_def onAnimationEnd_def u_completeExit_def ngZone_run_def
        finalize_inv Let_def)
next
  case (Subscribe obs)
  assume "container_inv c"
  moreover obtain f where "obs = AsObservable f" by (cases obs)
  ultimately show ?thesis using Subscribe
    by (cases f) (simp_all add: container_inv_def subscribe_inv)
next
  case MicrotaskEmpty
  assume "container_inv c"
  then show ?thesis using MicrotaskEmpty
    by (simp add: container_inv_def onMicrotaskEmpty_emit_def fold_run_callback_onExit_inv
        fold_run_callback_frame)
qed (simp_all add: container_inv_def attachTemplatePortal_def enter_def u_onEnter_def
      u_onExit_def exit_def ngOnDestroy_def u_completeExit_def)

lemma new_container_inv: "container_inv new_container"
  by (simp add: container_inv_def new_container_def subject_inv_new)

lemma exec_inv: "container_inv c \<Longrightarrow> container_inv (exec calls c)"
  unfolding exec_def by (induction calls arbitrary: c) (simp_all add: step_inv)

lemma exec_append: "exec (xs @ ys) c = exec ys (exec xs c)"
  by (simp add: exec_def)

lemma exec_Cons: "exec (x # xs) c = exec xs (step x c)"
  by (simp add: exec_def)

lemma reachable_inv: "container_inv (exec calls new_container)"
  by (simp add: exec_inv new_container_inv)

subsection \<open>Attachment\<close>

lemma attached_stays: "attached c \<Longrightarrow> attached (step x c)"
proof (cases x)
  case (CallAttachComponentPortal p)
  assume "attached c"
  then show ?thesis using CallAttachComponentPortal
    by (auto simp add: attached_def attachComponentPortal_def split: option.splits)
next
  case (CallOnAnimationEnd ev)
  assume "attached c"
  then show ?thesis using CallOnAnimationEnd
    by (simp add: attached_def onAnimationEnd_def u_completeExit_def ngZone_run_def Let_def)
next
  case (Subscribe obs)
  assume "attached c"
  moreover obtain f where "obs = AsObservable f" by (cases obs)
  ultimately show ?thesis using Subscribe
    by (cases f) (simp_all add: attached_def)
next
  case MicrotaskEmpty
  assume "attached c"
  then show ?thesis using MicrotaskEmpty
    by (simp add: attached_def onMicrotaskEmpty_emit_def fold_run_callback_frame)
qed (simp_all add: attached_def attachTemplatePortal_def enter_def u_onEnter_def
      u_onExit_def exit_def ngOnDestroy_def u_completeExit_def)

lemma attach_throws_iff:
  "fst (attachComponentPortal p c) = Inl MdKeyboardContentAlreadyAttached \<longleftrightarrow> attached c"
  by (simp add: attachComponentPortal_def attached_def portalHost_attachComponentPortal_def
      split: option.splits)

lemma attach_success_attached:
  "attach_succeeds x c \<Longrightarrow> \<not> attached c \<and> attached (step x c)"
proof (cases x)
  case (CallAttachComponentPortal p)
  assume "attach_succeeds x c"
  then show ?thesis using CallAttachComponentPortal
    by (auto simp add: attachComponentPortal_def attached_def hasAttached_def
        portalHost_attachComponentPortal_def fold_addClass_frame
        split: option.splits if_splits)
qed simp_all

lemma attached_no_success: "attached c \<Longrightarrow> attach_successes xs c = 0"
proof (induction xs arbitrary: c)
  case Nil
  show ?case by simp
next
  case (Cons x xs)
  from Cons.prems have "\<not> attach_succeeds x c" using attach_success_attached by blast
  moreover from Cons.prems have "attached (step x c)" by (rule attached_stays)
  ultimately show ?case by (simp add: Cons.IH)
qed

lemma attach_successes_le_1: "attach_successes xs c \<le> 1"
proof (induction xs arbitrary: c)
  case Nil
  show ?case by simp
next
  case (Cons x xs)
  show ?case
  proof (cases "attach_succeeds x c")
    case True
    then have "attached (step x c)" using attach_success_attached by blast
    then show ?thesis using True by (simp add: attached_no_success)
  next
    case False
    then show ?thesis using Cons.IH by simp
  qed
qed

lemma fold_addClass_classes:
  "addedClasses (u_elementRef (fold addClass cs c)) = addedClasses (u_elementRef c) @ cs"
  by (induction cs arbitrary: c) (simp_all add: addClass_def renderer_addClass_def)

subsection \<open>The exit subject along a trace\<close>

lemma subject_counts:
  assumes "subject_inv s"
  shows "nextCount s \<le> 1 \<and> (isStopped s \<longleftrightarrow> nextCount s = 1) \<and>
         count_list (notifications s i) OnNext \<le> 1 \<and>
         count_list (notifications s i) OnComplete \<le> 1 \<and>
         (isStopped s \<and> i < subscribed s \<longrightarrow> count_list (notifications s i) OnComplete = 1) \<and>
         (\<not> isStopped s \<longrightarrow> notifications s i = [])"
proof (cases "isStopped s")
  case True
  with assms have "notifications s i =
      (if i < subscribed s
       then (if (i, OnNext) \<in> set (received s) then [OnNext, OnComplete] else [OnComplete])
       else [])" and "nextCount s = 1"
    by (simp_all add: subject_inv_def)
  then show ?thesis using True by simp
next
  case False
  with assms have "received s = []" and "nextCount s = 0"
    by (simp_all add: subject_inv_def)
  then show ?thesis using False by (simp add: notifications_def)
qed

lemma step_exit_stopped: "isStopped (onExit c) \<Longrightarrow> isStopped (onExit (step x c))"
proof (cases x)
  case (CallAttachComponentPortal p)
  assume "isStopped (onExit c)"
  then show ?thesis using CallAttachComponentPortal by (simp add: attach_frame)
next
  case (CallOnAnimationEnd ev)
  assume "isStopped (onExit c)"
  then show ?thesis using CallOnAnimationEnd
    by (simp add: onAnimationEnd_def u_completeExit_def ngZone_run_def Let_def)
next
  case (Subscribe obs)
  assume "isStopped (onExit c)"
  moreover obtain f where "obs = AsObservable f" by (cases obs)
  ultimately show ?thesis using Subscribe
    by (cases f) (simp_all add: subscribe_stopped)
next
  case MicrotaskEmpty
  assume "isStopped (onExit c)"
  then show ?thesis using MicrotaskEmpty
    by (simp add: onMicrotaskEmpty_emit_def fold_run_callback_stops)
qed (simp_all add: attachTemplatePortal_def enter_def u_onEnter_def
      u_onExit_def exit_def ngOnDestroy_def u_completeExit_def)

lemma exec_exit_stopped: "isStopped (onExit c) \<Longrightarrow> isStopped (onExit (exec calls c))"
  unfolding exec_def by (induction calls arbitrary: c) (simp_all add: step_exit_stopped)

lemma emit_stops: "exit_pending c \<Longrightarrow> isStopped (onExit (onMicrotaskEmpty_emit c))"
  by (simp add: exit_pending_def onMicrotaskEmpty_emit_def fold_run_callback_stops)

lemma completeExit_pending: "exit_pending (u_completeExit c)"
  by (simp add: exit_pending_def u_completeExit_def onMicrotaskEmpty_first_subscribe_def)

lemma trigger_pending: "exit_trigger t \<Longrightarrow> exit_pending (step t c)"
proof (cases t)
  case (CallOnAnimationEnd ev)
  assume "exit_trigger t"
  with CallOnAnimationEnd have "onAnimationEnd ev c = u_completeExit c"
    by (auto simp add: onAnimationEnd_def)
  then show ?thesis using CallOnAnimationEnd by (simp add: completeExit_pending)
next
  case CallNgOnDestroy
  then show ?thesis by (simp add: ngOnDestroy_def completeExit_pending)
qed simp_all

lemma step_pending: "exit_pending c \<Longrightarrow> exit_pending (step x c)"
proof (cases x)
  case (CallAttachComponentPortal p)
  assume "exit_pending c"
  then show ?thesis using CallAttachComponentPortal
    by (simp add: exit_pending_def attach_frame)
next
  case (CallOnAnimationEnd ev)
  assume "exit_pending c"
  then show ?thesis using CallOnAnimationEnd
    by (auto simp add: exit_pending_def onAnimationEnd_def u_completeExit_def ngZone_run_def
        onMicrotaskEmpty_first_subscribe_def Let_def)
next
  case (Subscribe obs)
  assume "exit_pending c"
  moreover obtain f where "obs = AsObservable f" by (cases obs)
  ultimately show ?thesis using Subscribe
    by (cases f) (simp_all add: exit_pending_def subscribe_stopped)
next
  case MicrotaskEmpty
  assume "exit_pending c"
  then show ?thesis using MicrotaskEmpty
    by (simp add: emit_stops exit_pending_def)
qed (simp_all add: exit_pending_def attachTemplatePortal_def enter_def u_onEnter_def
      u_onExit_def exit_def ngOnDestroy_def u_completeExit_def
      onMicrotaskEmpty_first_subscribe_def)

lemma exec_pending: "exit_pending c \<Longrightarrow> exit_pending (exec calls c)"
  unfolding exec_def by (induction calls arbitrary: c) (simp_all add: step_pending)

lemma trigger_then_emission:
  assumes "exit_trigger t"
  shows "isStopped (onExit (exec (pre @ [t] @ mid @ [MicrotaskEmpty] @ post) c))"
proof -
  have "exit_pending (step t (exec pre c))" using assms by (rule trigger_pending)
  then have "exit_pending (exec mid (step t (exec pre c)))" by (rule exec_pending)
  then have "isStopped (onExit (onMicrotaskEmpty_emit (exec mid (step t (exec pre c)))))"
    by (rule emit_stops)
  then have "isStopped (onExit (exec post
      (onMicrotaskEmpty_emit (exec mid (step t (exec pre c))))))"
    by (rule exec_exit_stopped)
  then show ?thesis by (simp add: exec_append exec_Cons)
qed

lemma step_keeps_unexited:
  assumes "\<not> exit_trigger x"
    and "firstSubscribers (u_ngZone c) = []" and "\<not> isStopped (onExit c)"
  shows "firstSubscribers (u_ngZone (step x c)) = [] \<and> \<not> isStopped (onExit (step x c))"
proof (cases x)
  case (CallAttachComponentPortal p)
  then show ?thesis using assms by (simp add: attach_frame)
next
  case (CallOnAnimationEnd ev)
  then show ?thesis using assms
    by (simp add: onAnimationEnd_def ngZone_run_def)
next
  case (Subscribe obs)
  obtain f where "obs = AsObservable f" by (cases obs)
  then show ?thesis using Subscribe assms
    by (cases f) (simp_all add: subscribe_stopped)
next
  case MicrotaskEmpty
  then show ?thesis using assms
    by (simp add: onMicrotaskEmpty_emit_def)
qed (use assms in \<open>simp_all add: attachTemplatePortal_def enter_def u_onEnter_def
      u_onExit_def exit_def\<close>)

lemma exit_needs_trigger:
  assumes "\<forall>x \<in> set calls. \<not> exit_trigger x"
    and "firstSubscribers (u_ngZone c) = []" and "\<not> isStopped (onExit c)"
  shows "firstSubscribers (u_ngZone (exec calls c)) = [] \<and> \<not> isStopped (onExit (exec calls c))"
  using assms
proof (induction calls arbitrary: c)
  case Nil
  then show ?case by (simp add: exec_def)
next
  case (Cons x xs)
  then have "firstSubscribers (u_ngZone (step x c)) = [] \<and> \<not> isStopped (onExit (step x c))"
    using step_keeps_unexited [of x c] by simp
  with Cons show ?case by (simp add: exec_Cons)
qed

lemma step_exit_only_at_emission:
  assumes "x \<noteq> MicrotaskEmpty"
  shows "nextCount (onExit (step x c)) = nextCount (onExit c) \<and>
         isStopped (onExit (step x c)) = isStopped (onExit c)"
proof (cases x)
  case (CallAttachComponentPortal p)
  then show ?thesis by (simp add: attach_frame)
next
  case (CallOnAnimationEnd ev)
  then show ?thesis
    by (simp add: onAnimationEnd_def u_completeExit_def ngZone_run_def Let_def)
next
  case (Subscribe obs)
  obtain f where "obs = AsObservable f" by (cases obs)
  then show ?thesis using Subscribe
    by (cases f) (simp_all add: subject_subscribe_def)
next
  case MicrotaskEmpty
  then show ?thesis using assms by simp
qed (simp_all add: attachTemplatePortal_def enter_def u_onEnter_def
      u_onExit_def exit_def ngOnDestroy_def u_completeExit_def)

lemma exec_exit_only_at_emission:
  "MicrotaskEmpty \<notin> set calls \<Longrightarrow>
   nextCount (onExit (exec calls c)) = nextCount (onExit c) \<and>
   isStopped (onExit (exec calls c)) = isStopped (onExit c)"
proof (induction calls arbitrary: c)
  case Nil
  show ?case by (simp add: exec_def)
next
  case (Cons x xs)
  then have "x \<noteq> MicrotaskEmpty" and "MicrotaskEmpty \<notin> set xs" by auto
  then show ?case
    using Cons.IH [of "step x c"] step_exit_only_at_emission [of x c]
    by (simp add: exec_Cons)
qed

lemma unfired_until_emission:
  assumes "\<forall>x \<in> set pre. \<not> exit_trigger x" and "MicrotaskEmpty \<notin> set mid"
  shows "nextCount (onExit (exec (pre @ [t] @ mid) new_container)) = 0 \<and>
         received (onExit (exec (pre @ [t] @ mid) new_container)) = []"
proof -
  have "\<not> isStopped (onExit (exec pre new_container))"
    using exit_needs_trigger [of pre new_container] assms(1)
    by (simp add: new_container_def new_subject_def)
  moreover have "MicrotaskEmpty \<notin> set ([t] @ mid) \<or> t = MicrotaskEmpty" using assms(2) by auto
  ultimately have ns: "\<not> isStopped (onExit (exec (pre @ [t] @ mid) new_container))"
  proof (cases "t = MicrotaskEmpty")
    case True
    assume a: "\<not> isStopped (onExit (exec pre new_container))"
    have "firstSubscribers (u_ngZone (exec pre new_container)) = []"
      using exit_needs_trigger [of pre new_container] assms(1)
      by (simp add: new_container_def new_subject_def)
    then have "\<not> isStopped (onExit (step t (exec pre new_container)))"
      using a True by (simp add: onMicrotaskEmpty_emit_def)
    then show ?thesis
      using exec_exit_only_at_emission [OF assms(2), of "step t (exec pre new_container)"]
      by (simp add: exec_append exec_Cons)
  next
    case False
    assume a: "\<not> isStopped (onExit (exec pre new_container))"
    from False assms(2) have "MicrotaskEmpty \<notin> set ([t] @ mid)" by simp
    then show ?thesis
      using exec_exit_only_at_emission [of "[t] @ mid" "exec pre new_container"] a
      by (simp add: exec_append)
  qed
  have "subject_inv (onExit (exec (pre @ [t] @ mid) new_container))"
    using reachable_inv [of "pre @ [t] @ mid"] by (simp add: container_inv_def)
  with ns show ?thesis by (simp add: subject_inv_def)
qed

subsection \<open>The enter subject along a trace\<close>

lemma step_enter_stopped: "isStopped (onEnter c) \<Longrightarrow> isStopped (onEnter (step x c))"
proof (cases x)
  case (CallAttachComponentPortal p)
  assume "isStopped (onEnter c)"
  then show ?thesis using CallAttachComponentPortal by (simp add: attach_frame)
next
  case (CallOnAnimationEnd ev)
  assume "isStopped (onEnter c)"
  then show ?thesis using CallOnAnimationEnd
    by (simp add: onAnimationEnd_def u_completeExit_def ngZone_run_def Let_def
        finalize_is_stopped)
next
  case (Subscribe obs)
  assume "isStopped (onEnter c)"
  moreover obtain f where "obs = AsObservable f" by (cases obs)
  ultimately show ?thesis using Subscribe
    by (cases f) (simp_all add: subscribe_stopped)
next
  case MicrotaskEmpty
  assume "isStopped (onEnter c)"
  then show ?thesis using MicrotaskEmpty
    by (simp add: onMicrotaskEmpty_emit_def fold_run_callback_frame)
qed (simp_all add: attachTemplatePortal_def enter_def u_onEnter_def
      u_onExit_def exit_def ngOnDestroy_def u_completeExit_def)

lemma exec_enter_stopped: "isStopped (onEnter c) \<Longrightarrow> isStopped (onEnter (exec calls c))"
  unfolding exec_def by (induction calls arbitrary: c) (simp_all add: step_enter_stopped)

lemma visible_report_stops:
  "toState ev = ''visible'' \<Longrightarrow> isStopped (onEnter (onAnimationEnd ev c))"
  by (simp add: onAnimationEnd_def ngZone_run_def finalize_is_stopped)

lemma late_subscriber:
  assumes "subject_inv s" and "isStopped s"
  shows "notifications (subject_subscribe s) (subscribed s) = [OnComplete]"
proof -
  from assms have "notifications s (subscribed s) = []"
    by (simp add: subject_inv_def)
  then show ?thesis using assms(2)
    by (simp add: notifications_def subject_subscribe_def)
qed

lemma state_name_visible: "state_name s = ''visible'' \<longleftrightarrow> s = Visible"
  by (cases s) simp_all

lemma step_keeps_unentered:
  assumes "x \<noteq> CallEnter" and "x \<noteq> CallOnEnter"
    and "case x of CallOnAnimationEnd ev \<Rightarrow> toState ev \<noteq> ''visible'' | _ \<Rightarrow> True"
    and "animationState c \<noteq> Visible" and "\<not> isStopped (onEnter c)"
  shows "animationState (step x c) \<noteq> Visible \<and> \<not> isStopped (onEnter (step x c))"
proof (cases x)
  case (CallAttachComponentPortal p)
  then show ?thesis using assms by (simp add: attach_frame)
next
  case (CallOnAnimationEnd ev)
  then show ?thesis using assms
    by (simp add: onAnimationEnd_def u_completeExit_def Let_def)
next
  case (Subscribe obs)
  obtain f where "obs = AsObservable f" by (cases obs)
  then show ?thesis using Subscribe assms
    by (cases f) (simp_all add: subscribe_stopped)
next
  case MicrotaskEmpty
  then show ?thesis using assms
    by (simp add: onMicrotaskEmpty_emit_def fold_run_callback_frame)
qed (use assms in \<open>simp_all add: attachTemplatePortal_def
      u_onExit_def exit_def ngOnDestroy_def u_completeExit_def\<close>)

lemma entered_needs_request:
  assumes "engine_reports_requested seen c calls"
    and "Visible \<notin> set seen" and "animationState c \<noteq> Visible"
    and "CallEnter \<notin> set calls" and "CallOnEnter \<notin> set calls"
    and "\<not> isStopped (onEnter c)"
  shows "\<not> isStopped (onEnter (exec calls c))"
  using assms
proof (induction calls arbitrary: seen c)
  case Nil
  then show ?case by (simp add: exec_def)
next
  case (Cons x xs)
  have ok: "case x of CallOnAnimationEnd ev \<Rightarrow> toState ev \<noteq> ''visible'' | _ \<Rightarrow> True"
  proof (cases x)
    case (CallOnAnimationEnd ev)
    with Cons.prems(1) have "toState ev \<in> set (map state_name (Void # seen))" by simp
    with Cons.prems(2) have "toState ev \<noteq> ''visible''"
      by (auto simp add: state_name_visible)
    then show ?thesis using CallOnAnimationEnd by simp
  qed simp_all
  from Cons.prems have nx: "x \<noteq> CallEnter" "x \<noteq> CallOnEnter" by auto
  have st: "animationState (step x c) \<noteq> Visible \<and> \<not> isStopped (onEnter (step x c))"
    using step_keeps_unentered [OF nx ok] Cons.prems by simp
  have "\<not> isStopped (onEnter (exec xs (step x c)))"
  proof (rule Cons.IH)
    show "engine_reports_requested (animationState (step x c) # seen) (step x c) xs"
      using Cons.prems(1) by simp
    show "Visible \<notin> set (animationState (step x c) # seen)"
      using st Cons.prems(2) by auto
    show "animationState (step x c) \<noteq> Visible" using st by simp
    show "CallEnter \<notin> set xs" "CallOnEnter \<notin> set xs" using Cons.prems by auto
    show "\<not> isStopped (onEnter (step x c))" using st by simp
  qed
  then show ?case by (simp add: exec_Cons)
qed

lemma step_enter_stopped_shape:
  assumes "subject_inv (onEnter c)" and "isStopped (onEnter c)"
  shows "onEnter (step x c) = onEnter c \<or> onEnter (step x c) = subject_subscribe (onEnter c)"
proof (cases x)
  case (CallAttachComponentPortal p)
  then show ?thesis by (simp add: attach_frame)
next
  case (CallOnAnimationEnd ev)
  then show ?thesis using assms
    by (simp add: onAnimationEnd_def u_completeExit_def ngZone_run_def Let_def finalize_stopped)
next
  case (Subscribe obs)
  obtain f where "obs = AsObservable f" by (cases obs)
  then show ?thesis using Subscribe by (cases f) simp_all
next
  case MicrotaskEmpty
  then show ?thesis by (simp add: onMicrotaskEmpty_emit_def fold_run_callback_frame)
qed (simp_all add: attachTemplatePortal_def enter_def u_onEnter_def
      u_onExit_def exit_def ngOnDestroy_def u_completeExit_def)

lemma subscribe_stopped_notifications:
  assumes "isStopped s"
  shows "notifications (subject_subscribe s) i =
           notifications s i @ (if i = subscribed s then [OnComplete] else [])"
    and "subscribed (subject_subscribe s) = Suc (subscribed s)"
  using assms by (simp_all add: subject_subscribe_def notifications_def)

lemma notifications_beyond:
  "subject_inv s \<Longrightarrow> isStopped s \<Longrightarrow> subscribed s \<le> i \<Longrightarrow> notifications s i = []"
  by (simp add: subject_inv_def)

lemma notifications_within:
  "subject_inv s \<Longrightarrow> isStopped s \<Longrightarrow> notifications s i \<noteq> [] \<Longrightarrow> i < subscribed s"
  using notifications_beyond [of s i] by (cases "i < subscribed s") simp_all

lemma stopped_exec_notifications:
  assumes "container_inv c" and "isStopped (onEnter c)"
  shows "notifications (onEnter (exec post c)) i =
           (if i < subscribed (onEnter c) then notifications (onEnter c) i
            else if i < subscribed (onEnter (exec post c)) then [OnComplete] else [])"
  using assms
proof (induction post arbitrary: c)
  case Nil
  then show ?case
    by (simp add: exec_def container_inv_def notifications_beyond)
next
  case (Cons x xs)
  let ?c' = "step x c"
  have inv': "container_inv ?c'" using Cons.prems(1) by (rule step_inv)
  have st': "isStopped (onEnter ?c')" using Cons.prems(2) by (rule step_enter_stopped)
  have inv: "subject_inv (onEnter c)" using Cons.prems(1) by (simp add: container_inv_def)
  have IH: "notifications (onEnter (exec xs ?c')) i =
           (if i < subscribed (onEnter ?c') then notifications (onEnter ?c') i
            else if i < subscribed (onEnter (exec xs ?c')) then [OnComplete] else [])"
    using Cons.IH [OF inv' st'] .
  have fin: "subject_inv (onEnter (exec xs ?c'))" "isStopped (onEnter (exec xs ?c'))"
    using exec_inv [OF inv', of xs] exec_enter_stopped [OF st', of xs]
    by (simp_all add: container_inv_def)
  from step_enter_stopped_shape [OF inv Cons.prems(2), of x]
  show ?case
  proof
    assume "onEnter ?c' = onEnter c"
    then show ?thesis using IH by (simp add: exec_Cons)
  next
    assume sub: "onEnter ?c' = subject_subscribe (onEnter c)"
    let ?n = "subscribed (onEnter c)"
    have n1: "subscribed (onEnter ?c') = Suc ?n"
      using sub subscribe_stopped_notifications(2) [OF Cons.prems(2)] by simp
    have nt: "notifications (onEnter ?c') i =
        notifications (onEnter c) i @ (if i = ?n then [OnComplete] else [])"
      using sub subscribe_stopped_notifications(1) [OF Cons.prems(2)] by simp
    show ?thesis
    proof (cases "i < ?n")
      case True
      then show ?thesis using IH n1 nt by (simp add: exec_Cons)
    next
      case False
      show ?thesis
      proof (cases "i = ?n")
        case True
        have "notifications (onEnter c) ?n = []"
          using inv Cons.prems(2) by (simp add: notifications_beyond)
        then have val: "notifications (onEnter (exec xs ?c')) i = [OnComplete]"
          using IH n1 nt True by simp
        then have "i < subscribed (onEnter (exec xs ?c'))"
          using notifications_within [OF fin, of i] by simp
        then show ?thesis using val True by (simp add: exec_Cons)
      next
        case neq: False
        with False have "\<not> i < Suc ?n" by simp
        then show ?thesis using IH n1 False by (simp add: exec_Cons)
      qed
    qed
  qed
qed

lemma first_firing_notifications:
  assumes "subject_inv s" and "\<not> isStopped s"
  shows "notifications (subject_complete (subject_next s)) i =
           (if i < subscribed s then [OnNext, OnComplete] else [])"
    and "subscribed (subject_complete (subject_next s)) = subscribed s"
  using assms
  by (simp_all add: subject_inv_def subject_next_def subject_complete_def
      notifications_def notifications_broadcast)

lemma early_and_late_subscribers:
  assumes vis: "toState ev = ''visible''"
    and ns: "\<not> isStopped (onEnter (exec pre new_container))"
  shows "notifications (onEnter (exec (pre @ [CallOnAnimationEnd ev] @ post) new_container)) i =
           (if i < subscribed (onEnter (exec pre new_container)) then [OnNext, OnComplete]
            else if i < subscribed
                (onEnter (exec (pre @ [CallOnAnimationEnd ev] @ post) new_container))
            then [OnComplete] else [])"
proof -
  let ?c0 = "exec pre new_container"
  let ?c1 = "onAnimationEnd ev ?c0"
  have inv0: "container_inv ?c0" by (rule reachable_inv)
  then have s0: "subject_inv (onEnter ?c0)" by (simp add: container_inv_def)
  have inv1: "container_inv ?c1" using step_inv [OF inv0, of "CallOnAnimationEnd ev"] by simp
  have st1: "isStopped (onEnter ?c1)" using vis by (rule visible_report_stops)
  have e1: "onEnter ?c1 = subject_complete (subject_next (onEnter ?c0))"
    using vis by (simp add: onAnimationEnd_def ngZone_run_def Let_def)
  have "exec (pre @ [CallOnAnimationEnd ev] @ post) new_container = exec post ?c1"
    by (simp add: exec_append exec_Cons)
  then show ?thesis
    using stopped_exec_notifications [OF inv1 st1, of post i]
      first_firing_notifications [OF s0 ns] e1
    by simp
qed

subsection \<open>Destruction\<close>

lemma destroy_emit_stopped: "isStopped (onExit (onMicrotaskEmpty_emit (ngOnDestroy c)))"
  by (simp add: ngOnDestroy_def emit_stops completeExit_pending)

lemma emit_exit_stopped_same:
  "subject_inv (onExit c) \<Longrightarrow> isStopped (onExit c) \<Longrightarrow>
   onExit (onMicrotaskEmpty_emit c) = onExit c"
  by (simp add: onMicrotaskEmpty_emit_def fold_run_callback_stopped)

lemma destroy_exit_same: "onExit (ngOnDestroy c) = onExit c"
  by (simp add: ngOnDestroy_def u_completeExit_def)

lemma emit_inv: "container_inv c \<Longrightarrow> container_inv (onMicrotaskEmpty_emit c)"
  using step_inv [of c MicrotaskEmpty] by simp

lemma destroy_inv: "container_inv c \<Longrightarrow> container_inv (ngOnDestroy c)"
  using step_inv [of c CallNgOnDestroy] by simp

lemma finalize_twice:
  "subject_inv s \<Longrightarrow>
   subject_complete (subject_next (subject_complete (subject_next s))) =
   subject_complete (subject_next s)"
  by (rule finalize_stopped) (simp_all add: finalize_inv finalize_is_stopped)

lemma two_callbacks:
  assumes "subject_inv (onExit c)"
  shows "onExit (onMicrotaskEmpty_emit (ngOnDestroy (ngOnDestroy c))) =
         onExit (onMicrotaskEmpty_emit (ngOnDestroy c))"
proof -
  let ?c' = "fold run_callback (firstSubscribers (u_ngZone c))
               (c\<lparr>u_ngZone := (u_ngZone c)\<lparr>firstSubscribers := []\<rparr>\<rparr>)"
  have "subject_inv (onExit ?c')"
    using assms by (simp add: fold_run_callback_onExit_inv)
  then show ?thesis
    by (simp add: onMicrotaskEmpty_emit_def ngOnDestroy_def u_completeExit_def
        onMicrotaskEmpty_first_subscribe_def finalize_twice)
qed

subsection \<open>Evaluation\<close>

text \<open>The defining equations that evaluate a trace on a given component.\<close>

lemmas model_defs =
  exec_def new_container_def new_subject_def subject_next_def subject_complete_def
  subject_subscribe_def notifications_def onAnimationEnd_def u_completeExit_def
  ngZone_run_def enter_def u_onEnter_def u_onExit_def exit_def ngOnDestroy_def
  onMicrotaskEmpty_emit_def onMicrotaskEmpty_first_subscribe_def

section \<open>Attaching content\<close>

text \<open>
  Claim C2. In every sequence of operations on one component, from any component, at
  most one call of \<^verbatim>\<open>attachComponentPortal\<close> returns a reference. The call throws
  \<^verbatim>\<open>MdKeyboardContentAlreadyAttached\<close> exactly when the portal host already holds
  content; and once content is held it stays held whatever happens next, so that every
  later call of \<^verbatim>\<open>attachComponentPortal\<close> throws that error.
\<close>

theorem attach_at_most_once:
  "attach_successes calls c \<le> 1 \<and>
   (fst (attachComponentPortal portal c) = Inl MdKeyboardContentAlreadyAttached
      \<longleftrightarrow> attached c) \<and>
   (attached c \<longrightarrow> attached (exec calls c) \<and>
      fst (attachComponentPortal portal (exec calls c)) = Inl MdKeyboardContentAlreadyAttached)"
proof -
  have "attached c \<Longrightarrow> attached (exec calls c)"
    unfolding exec_def by (induction calls arbitrary: c) (simp_all add: attached_stays)
  then show ?thesis
    using attach_successes_le_1 [of calls c] by (simp add: attach_throws_iff)
qed

theorem attach_at_most_once_witness:
  "attached (snd (attachComponentPortal (ComponentPortal 1)
      (new_container\<lparr>keyboardConfig := Some \<lparr>extraClasses = Some [''dark'']\<rparr>\<rparr>))) \<and>
   attach_successes
     [SetKeyboardConfig \<lparr>extraClasses = Some [''dark'']\<rparr>,
      CallAttachComponentPortal (ComponentPortal 1),
      CallAttachComponentPortal (ComponentPortal 2)] new_container = 1 \<and>
   fst (attachComponentPortal (ComponentPortal 2)
     (exec [CallEnter]
       (snd (attachComponentPortal (ComponentPortal 1)
         (new_container\<lparr>keyboardConfig := Some \<lparr>extraClasses = Some [''dark'']\<rparr>\<rparr>)))))
     = Inl MdKeyboardContentAlreadyAttached"
  using attach_at_most_once [of "[CallEnter]"
      "snd (attachComponentPortal (ComponentPortal 1)
         (new_container\<lparr>keyboardConfig := Some \<lparr>extraClasses = Some [''dark'']\<rparr>\<rparr>))"
      "ComponentPortal 2"]
  by (simp add: attached_def hasAttached_def attachComponentPortal_def new_container_def
      portalHost_attachComponentPortal_def addClass_def renderer_addClass_def)

text \<open>
  Claim C7. A failed attach changes nothing: on a component whose portal host holds
  content, \<^verbatim>\<open>attachComponentPortal\<close> throws \<^verbatim>\<open>MdKeyboardContentAlreadyAttached\<close> and the
  component at the throw is the component before the call (no class handed to the
  renderer, no field changed). In particular, after \<^verbatim>\<open>attach(X)\<close> has returned, the
  call \<^verbatim>\<open>attach(Y)\<close> throws and \<open>X\<close> is still the attached portal.
\<close>

theorem failed_attach_is_atomic:
  "(attached c \<longrightarrow>
      attachComponentPortal y c = (Inl MdKeyboardContentAlreadyAttached, c)) \<and>
   (attachComponentPortal x c = (Inr r, c1) \<longrightarrow>
      attachComponentPortal y c1 = (Inl MdKeyboardContentAlreadyAttached, c1) \<and>
      (\<exists>ph. u_portalHost c1 = Some ph \<and> attachedPortal ph = Some x))"
  by (auto simp add: attachComponentPortal_def attached_def hasAttached_def
      portalHost_attachComponentPortal_def split: option.splits if_splits)

theorem failed_attach_is_atomic_witness:
  "attached (snd (attachComponentPortal (ComponentPortal 1)
      (new_container\<lparr>keyboardConfig := Some \<lparr>extraClasses = Some [''dark'']\<rparr>\<rparr>))) \<and>
   attachComponentPortal (ComponentPortal 2)
     (snd (attachComponentPortal (ComponentPortal 1)
        (new_container\<lparr>keyboardConfig := Some \<lparr>extraClasses = Some [''dark'']\<rparr>\<rparr>))) =
     (Inl MdKeyboardContentAlreadyAttached,
      snd (attachComponentPortal (ComponentPortal 1)
        (new_container\<lparr>keyboardConfig := Some \<lparr>extraClasses = Some [''dark'']\<rparr>\<rparr>))) \<and>
   addedClasses (u_elementRef (snd (attachComponentPortal (ComponentPortal 2)
     (snd (attachComponentPortal (ComponentPortal 1)
        (new_container\<lparr>keyboardConfig := Some \<lparr>extraClasses = Some [''dark'']\<rparr>\<rparr>)))))) =
     [''dark'']"
  using failed_attach_is_atomic [of
      "snd (attachComponentPortal (ComponentPortal 1)
         (new_container\<lparr>keyboardConfig := Some \<lparr>extraClasses = Some [''dark'']\<rparr>\<rparr>))"
      "ComponentPortal 2"]
  by (simp add: attached_def hasAttached_def attachComponentPortal_def new_container_def
      portalHost_attachComponentPortal_def addClass_def renderer_addClass_def)

text \<open>
  Claim C10. \<^verbatim>\<open>attachComponentPortal\<close> reads \<^verbatim>\<open>keyboardConfig.extraClasses\<close> with no
  check that \<^verbatim>\<open>keyboardConfig\<close> is assigned. On a component whose portal host is
  empty: if \<^verbatim>\<open>keyboardConfig\<close> is not assigned the call faults with a \<^verbatim>\<open>TypeError\<close>
  (neither of the two errors the component throws itself) and changes nothing; if it is
  assigned the call never faults, returns the reference to the materialized portal,
  leaves the portal attached and hands exactly the configured classes to the renderer,
  in order; and if \<^verbatim>\<open>extraClasses\<close> is absent or empty no class is added and nothing
  but the portal host changes.
\<close>

theorem attach_reads_keyboardConfig:
  assumes "u_portalHost c = Some ph" and "\<not> hasAttached ph"
  shows "(keyboardConfig c = None \<longrightarrow> attachComponentPortal p c = (Inl TypeError, c)) \<and>
         (keyboardConfig c = Some cfg \<longrightarrow>
            fst (attachComponentPortal p c) = Inr (ComponentRef p) \<and>
            attached (snd (attachComponentPortal p c)) \<and>
            addedClasses (u_elementRef (snd (attachComponentPortal p c))) =
              addedClasses (u_elementRef c) @ (case extraClasses cfg of None \<Rightarrow> [] | Some cs \<Rightarrow> cs)) \<and>
         (keyboardConfig c = Some cfg \<and> (extraClasses cfg = None \<or> extraClasses cfg = Some []) \<longrightarrow>
            attachComponentPortal p c =
              (Inr (ComponentRef p), c\<lparr>u_portalHost := Some (ph\<lparr>attachedPortal := Some p\<rparr>)\<rparr>))"
  using assms
  by (auto simp add: attachComponentPortal_def attached_def hasAttached_def
      portalHost_attachComponentPortal_def fold_addClass_classes fold_addClass_frame
      split: option.splits)

theorem attach_reads_keyboardConfig_witness:
  "attachComponentPortal (ComponentPortal 1) new_container = (Inl TypeError, new_container) \<and>
   fst (attachComponentPortal (ComponentPortal 1)
     (new_container\<lparr>keyboardConfig := Some \<lparr>extraClasses = Some [''dark'', ''wide'']\<rparr>\<rparr>)) =
     Inr (ComponentRef (ComponentPortal 1)) \<and>
   addedClasses (u_elementRef (snd (attachComponentPortal (ComponentPortal 1)
     (new_container\<lparr>keyboardConfig := Some \<lparr>extraClasses = Some [''dark'', ''wide'']\<rparr>\<rparr>)))) =
     [''dark'', ''wide''] \<and>
   addedClasses (u_elementRef (snd (attachComponentPortal (ComponentPortal 1)
     (new_container\<lparr>keyboardConfig := Some \<lparr>extraClasses = None\<rparr>\<rparr>)))) = []"
  using attach_reads_keyboardConfig [where c = new_container
      and ph = "\<lparr>attachedPortal = None\<rparr>" and cfg = "\<lparr>extraClasses = None\<rparr>"
      and p = "ComponentPortal 1"]
    attach_reads_keyboardConfig [where
      c = "new_container\<lparr>keyboardConfig := Some \<lparr>extraClasses = Some [''dark'', ''wide'']\<rparr>\<rparr>"
      and ph = "\<lparr>attachedPortal = None\<rparr>"
      and cfg = "\<lparr>extraClasses = Some [''dark'', ''wide'']\<rparr>" and p = "ComponentPortal 1"]
    attach_reads_keyboardConfig [where
      c = "new_container\<lparr>keyboardConfig := Some \<lparr>extraClasses = None\<rparr>\<rparr>"
      and ph = "\<lparr>attachedPortal = None\<rparr>" and cfg = "\<lparr>extraClasses = None\<rparr>"
      and p = "ComponentPortal 1"]
  by (simp add: new_container_def hasAttached_def)

section \<open>Entering\<close>

text \<open>
  Claim C9. \<^verbatim>\<open>_onEnter()\<close> is not a pure observer: besides returning the observable of
  the subject \<^verbatim>\<open>onEnter\<close>, every call sets \<^verbatim>\<open>animationState\<close> to \<^verbatim>\<open>visible\<close>, which
  is all that \<^verbatim>\<open>enter()\<close> does; no other field changes (putting the old value of
  \<^verbatim>\<open>animationState\<close> back gives the component before the call). So on a new
  component a call of \<^verbatim>\<open>_onEnter()\<close> alone requests the entrance.
\<close>

theorem onEnter_accessor_sets_state:
  "fst (u_onEnter c) = AsObservable OnEnterField \<and>
   animationState (snd (u_onEnter c)) = Visible \<and>
   snd (u_onEnter c) = enter c \<and>
   (snd (u_onEnter c))\<lparr>animationState := animationState c\<rparr> = c \<and>
   animationState (exec [CallOnEnter] new_container) = Visible"
  by (simp add: u_onEnter_def enter_def exec_def)

text \<open>
  Claim C8. \<^verbatim>\<open>enter()\<close> is idempotent: on a component whose state is \<^verbatim>\<open>visible\<close> it
  changes nothing, two calls do what one does, and it never touches the subject
  \<^verbatim>\<open>onEnter\<close>. Whatever the trace, however many calls of \<^verbatim>\<open>enter()\<close> it holds, the
  subject \<^verbatim>\<open>onEnter\<close> broadcasts at most once and no subscriber is handed a second
  value or a second completion.
\<close>

theorem enter_idempotent:
  "(animationState c = Visible \<longrightarrow> enter c = c) \<and>
   enter (enter c) = enter c \<and>
   animationState (enter c) = Visible \<and>
   onEnter (enter c) = onEnter c \<and>
   nextCount (onEnter (exec calls new_container)) \<le> 1 \<and>
   count_list (notifications (onEnter (exec calls new_container)) i) OnNext \<le> 1 \<and>
   count_list (notifications (onEnter (exec calls new_container)) i) OnComplete \<le> 1"
proof -
  have inv: "subject_inv (onEnter (exec calls new_container))"
    using reachable_inv [of calls] by (simp add: container_inv_def)
  have "animationState c = Visible \<Longrightarrow> enter c = c"
    by (cases c) (simp add: enter_def)
  then show ?thesis using subject_counts [OF inv, of i] by (simp add: enter_def)
qed

theorem enter_idempotent_witness:
  "animationState (enter new_container) = Visible \<and>
   enter (enter new_container) = enter new_container \<and>
   nextCount (onEnter (exec
     [CallEnter, Subscribe (AsObservable OnEnterField), CallEnter,
      CallOnAnimationEnd \<lparr>fromState = ''void'', toState = ''visible'', totalTime = 225,
        phaseName = ''done'', triggerName = ''state''\<rparr>,
      CallEnter,
      CallOnAnimationEnd \<lparr>fromState = ''visible'', toState = ''visible'', totalTime = 0,
        phaseName = ''done'', triggerName = ''state''\<rparr>] new_container)) = 1"
  using enter_idempotent [of "enter new_container"
      "[CallEnter, Subscribe (AsObservable OnEnterField), CallEnter,
      CallOnAnimationEnd \<lparr>fromState = ''void'', toState = ''visible'', totalTime = 225,
        phaseName = ''done'', triggerName = ''state''\<rparr>,
      CallEnter,
      CallOnAnimationEnd \<lparr>fromState = ''visible'', toState = ''visible'', totalTime = 0,
        phaseName = ''done'', triggerName = ''state''\<rparr>]" 0]
  by (simp add: model_defs)

text \<open>
  Claim C3, as amended. The entered signal fires once and its completion reaches late
  subscribers. In every trace, every subscriber of \<^verbatim>\<open>onEnter\<close> is handed at most one
  value and at most one completion, however many calls of \<^verbatim>\<open>enter()\<close> the trace holds;
  while the signal has not fired it has been handed nothing; once the signal has fired
  it has been handed the completion exactly once. The signal fires at the first report
  of a transition into \<^verbatim>\<open>visible\<close>, and from then on, whatever follows, a subscriber
  that subscribed before that report has been handed two notifications, the value and
  then the completion, and one that subscribed after it has been handed the completion
  only, during its subscription, and never the value.
\<close>

theorem entered_fire_once_late_subscribers:
  "(\<forall>i < subscribed (onEnter (exec calls new_container)).
      count_list (notifications (onEnter (exec calls new_container)) i) OnComplete \<le> 1 \<and>
      count_list (notifications (onEnter (exec calls new_container)) i) OnNext \<le> 1 \<and>
      (isStopped (onEnter (exec calls new_container)) \<longrightarrow>
         count_list (notifications (onEnter (exec calls new_container)) i) OnComplete = 1) \<and>
      (\<not> isStopped (onEnter (exec calls new_container)) \<longrightarrow>
         notifications (onEnter (exec calls new_container)) i = [])) \<and>
   (isStopped (onEnter (exec calls new_container)) \<longrightarrow>
      notifications
        (onEnter (exec (calls @ [Subscribe (AsObservable OnEnterField)]) new_container))
        (subscribed (onEnter (exec calls new_container))) = [OnComplete]) \<and>
   (toState ev = ''visible'' \<longrightarrow>
      isStopped (onEnter (exec (calls @ [CallOnAnimationEnd ev] @ post) new_container))) \<and>
   (toState ev = ''visible'' \<and> \<not> isStopped (onEnter (exec calls new_container)) \<longrightarrow>
      (\<forall>i < subscribed
           (onEnter (exec (calls @ [CallOnAnimationEnd ev] @ post) new_container)).
         notifications
           (onEnter (exec (calls @ [CallOnAnimationEnd ev] @ post) new_container)) i =
           (if i < subscribed (onEnter (exec calls new_container))
            then [OnNext, OnComplete] else [OnComplete])))"
proof -
  have inv: "subject_inv (onEnter (exec calls new_container))"
    using reachable_inv [of calls] by (simp add: container_inv_def)
  have "\<And>i. i < subscribed (onEnter (exec calls new_container)) \<Longrightarrow>
      count_list (notifications (onEnter (exec calls new_container)) i) OnComplete \<le> 1 \<and>
      count_list (notifications (onEnter (exec calls new_container)) i) OnNext \<le> 1 \<and>
      (isStopped (onEnter (exec calls new_container)) \<longrightarrow>
         count_list (notifications (onEnter (exec calls new_container)) i) OnComplete = 1) \<and>
      (\<not> isStopped (onEnter (exec calls new_container)) \<longrightarrow>
         notifications (onEnter (exec calls new_container)) i = [])"
    using subject_counts [OF inv] by blast
  moreover have "isStopped (onEnter (exec calls new_container)) \<Longrightarrow>
      notifications
        (onEnter (exec (calls @ [Subscribe (AsObservable OnEnterField)]) new_container))
        (subscribed (onEnter (exec calls new_container))) = [OnComplete]"
    using late_subscriber [OF inv] by (simp add: exec_append exec_Cons exec_def)
  moreover have "toState ev = ''visible'' \<Longrightarrow>
      isStopped (onEnter (exec (calls @ [CallOnAnimationEnd ev] @ post) new_container))"
    by (simp add: exec_append exec_Cons exec_enter_stopped visible_report_stops)
  moreover have "\<And>i. toState ev = ''visible'' \<and> \<not> isStopped (onEnter (exec calls new_container)) \<Longrightarrow>
      i < subscribed (onEnter (exec (calls @ [CallOnAnimationEnd ev] @ post) new_container)) \<Longrightarrow>
      notifications
        (onEnter (exec (calls @ [CallOnAnimationEnd ev] @ post) new_container)) i =
        (if i < subscribed (onEnter (exec calls new_container))
         then [OnNext, OnComplete] else [OnComplete])"
    using early_and_late_subscribers [of ev calls post] by simp
  ultimately show ?thesis by blast
qed

theorem entered_fire_once_late_subscribers_witness:
  "toState \<lparr>fromState = ''void'', toState = ''visible'', totalTime = 225,
            phaseName = ''done'', triggerName = ''state''\<rparr> = ''visible'' \<and>
   \<not> isStopped (onEnter (exec [Subscribe (AsObservable OnEnterField), CallEnter, CallEnter]
     new_container)) \<and>
   isStopped (onEnter (exec
     [Subscribe (AsObservable OnEnterField), CallEnter, CallEnter,
      CallOnAnimationEnd \<lparr>fromState = ''void'', toState = ''visible'', totalTime = 225,
        phaseName = ''done'', triggerName = ''state''\<rparr>] new_container)) \<and>
   (0::nat) < subscribed (onEnter (exec
     [Subscribe (AsObservable OnEnterField), CallEnter, CallEnter,
      CallOnAnimationEnd \<lparr>fromState = ''void'', toState = ''visible'', totalTime = 225,
        phaseName = ''done'', triggerName = ''state''\<rparr>] new_container)) \<and>
   count_list (notifications (onEnter (exec
     [Subscribe (AsObservable OnEnterField), CallEnter, CallEnter,
      CallOnAnimationEnd \<lparr>fromState = ''void'', toState = ''visible'', totalTime = 225,
        phaseName = ''done'', triggerName = ''state''\<rparr>] new_container)) 0) OnComplete = 1 \<and>
   notifications (onEnter (exec
     ([Subscribe (AsObservable OnEnterField), CallEnter, CallEnter,
      CallOnAnimationEnd \<lparr>fromState = ''void'', toState = ''visible'', totalTime = 225,
        phaseName = ''done'', triggerName = ''state''\<rparr>] @
      [Subscribe (AsObservable OnEnterField)]) new_container)) 1 = [OnComplete] \<and>
   received (onEnter (exec
     ([Subscribe (AsObservable OnEnterField), CallEnter, CallEnter] @
      [CallOnAnimationEnd \<lparr>fromState = ''void'', toState = ''visible'', totalTime = 225,
        phaseName = ''done'', triggerName = ''state''\<rparr>] @
      [CallEnter, Subscribe (AsObservable OnEnterField)]) new_container)) =
     [(0, OnNext), (0, OnComplete), (1, OnComplete)]"
  using entered_fire_once_late_subscribers [of
      "[Subscribe (AsObservable OnEnterField), CallEnter, CallEnter,
        CallOnAnimationEnd \<lparr>fromState = ''void'', toState = ''visible'', totalTime = 225,
          phaseName = ''done'', triggerName = ''state''\<rparr>]"
      "\<lparr>fromState = ''void'', toState = ''visible'', totalTime = 225,
          phaseName = ''done'', triggerName = ''state''\<rparr>" "[]"]
    entered_fire_once_late_subscribers [of
      "[Subscribe (AsObservable OnEnterField), CallEnter, CallEnter]"
      "\<lparr>fromState = ''void'', toState = ''visible'', totalTime = 225,
          phaseName = ''done'', triggerName = ''state''\<rparr>"
      "[CallEnter, Subscribe (AsObservable OnEnterField)]"]
  by (simp add: model_defs)

text \<open>
  The claim as stated has every subscriber receive exactly one notification. With one
  subscriber before the report and one after it, the first is handed two notifications
  (\<^verbatim>\<open>onEnter.next()\<close> and \<^verbatim>\<open>onEnter.complete()\<close> both reach it), and the second is
  handed the completion without the value.
\<close>

theorem entered_two_notifications_or_no_value:
  "notifications (onEnter (exec
     [Subscribe (AsObservable OnEnterField), CallEnter,
      CallOnAnimationEnd \<lparr>fromState = ''initial'', toState = ''visible'', totalTime = 225,
        phaseName = ''done'', triggerName = ''state''\<rparr>,
      Subscribe (AsObservable OnEnterField)] new_container)) 0 = [OnNext, OnComplete] \<and>
   length (notifications (onEnter (exec
     [Subscribe (AsObservable OnEnterField), CallEnter,
      CallOnAnimationEnd \<lparr>fromState = ''initial'', toState = ''visible'', totalTime = 225,
        phaseName = ''done'', triggerName = ''state''\<rparr>,
      Subscribe (AsObservable OnEnterField)] new_container)) 0) \<noteq> 1 \<and>
   notifications (onEnter (exec
     [Subscribe (AsObservable OnEnterField), CallEnter,
      CallOnAnimationEnd \<lparr>fromState = ''initial'', toState = ''visible'', totalTime = 225,
        phaseName = ''done'', triggerName = ''state''\<rparr>,
      Subscribe (AsObservable OnEnterField)] new_container)) 1 = [OnComplete]"
  by (simp add: model_defs)

section \<open>Exiting and destruction\<close>

text \<open>
  Claim C1, as amended. The exited signal fires exactly once per lifetime, and in every
  scenario it fires at an emission of the zone's \<^verbatim>\<open>onMicrotaskEmpty\<close>, never at the
  report or at the destruction itself. In no trace does the subject \<^verbatim>\<open>onExit\<close>
  broadcast more than once, and no subscriber is handed a second value or a second
  completion; it does not broadcast in a trace with neither a destruction nor a report
  of a transition into \<^verbatim>\<open>complete\<close> or \<^verbatim>\<open>void\<close>. No step other than an emission of
  \<^verbatim>\<open>onMicrotaskEmpty\<close> changes whether the subject has fired, on any component: after
  the first destruction or report of a trace and until the next emission, the subject
  has broadcast nothing and its subscribers have been handed nothing. Whenever the
  component is destroyed, or the animation engine reports a transition into
  \<^verbatim>\<open>complete\<close> or \<^verbatim>\<open>void\<close>, and \<^verbatim>\<open>onMicrotaskEmpty\<close> emits afterwards, the signal has
  fired exactly once and every subscriber has been handed the completion exactly once,
  whatever else the trace holds before, in between or after: with \<^verbatim>\<open>exit()\<close> and a
  report (a), with a destruction and no \<^verbatim>\<open>exit()\<close> (b), with \<^verbatim>\<open>exit()\<close>, no report and
  a destruction (c).
\<close>

theorem exited_fires_exactly_once:
  "nextCount (onExit (exec calls new_container)) \<le> 1 \<and>
   count_list (notifications (onExit (exec calls new_container)) i) OnNext \<le> 1 \<and>
   count_list (notifications (onExit (exec calls new_container)) i) OnComplete \<le> 1 \<and>
   ((\<forall>x \<in> set calls. \<not> exit_trigger x) \<longrightarrow>
      nextCount (onExit (exec calls new_container)) = 0) \<and>
   (y \<noteq> MicrotaskEmpty \<longrightarrow>
      nextCount (onExit (step y c)) = nextCount (onExit c) \<and>
      isStopped (onExit (step y c)) = isStopped (onExit c)) \<and>
   (exit_trigger t \<and> (\<forall>x \<in> set pre. \<not> exit_trigger x) \<and> MicrotaskEmpty \<notin> set mid \<longrightarrow>
      nextCount (onExit (exec (pre @ [t] @ mid) new_container)) = 0 \<and>
      received (onExit (exec (pre @ [t] @ mid) new_container)) = []) \<and>
   (exit_trigger t \<longrightarrow>
      nextCount (onExit (exec (pre @ [t] @ mid @ [MicrotaskEmpty] @ post) new_container)) = 1 \<and>
      (\<forall>j < subscribed (onExit (exec (pre @ [t] @ mid @ [MicrotaskEmpty] @ post) new_container)).
         count_list (notifications
           (onExit (exec (pre @ [t] @ mid @ [MicrotaskEmpty] @ post) new_container)) j)
           OnComplete = 1))"
proof -
  have a: "subject_inv (onExit (exec calls new_container))"
    using reachable_inv [of calls] by (simp add: container_inv_def)
  let ?s = "onExit (exec (pre @ [t] @ mid @ [MicrotaskEmpty] @ post) new_container)"
  have b: "subject_inv ?s"
    using reachable_inv [of "pre @ [t] @ mid @ [MicrotaskEmpty] @ post"]
    by (simp add: container_inv_def)
  have c: "exit_trigger t \<Longrightarrow> isStopped ?s" by (rule trigger_then_emission)
  have d: "\<forall>x \<in> set calls. \<not> exit_trigger x \<Longrightarrow>
      \<not> isStopped (onExit (exec calls new_container))"
    using exit_needs_trigger [of calls new_container]
    by (simp add: new_container_def new_subject_def)
  have e: "y \<noteq> MicrotaskEmpty \<Longrightarrow>
      nextCount (onExit (step y c)) = nextCount (onExit c) \<and>
      isStopped (onExit (step y c)) = isStopped (onExit c)"
    by (rule step_exit_only_at_emission)
  have f: "(\<forall>x \<in> set pre. \<not> exit_trigger x) \<and> MicrotaskEmpty \<notin> set mid \<Longrightarrow>
      nextCount (onExit (exec (pre @ [t] @ mid) new_container)) = 0 \<and>
      received (onExit (exec (pre @ [t] @ mid) new_container)) = []"
    using unfired_until_emission [of pre mid t] by blast
  have g: "exit_trigger t \<Longrightarrow> nextCount ?s = 1 \<and>
      (\<forall>j < subscribed ?s. count_list (notifications ?s j) OnComplete = 1)"
    using subject_counts [OF b] c by auto
  have h: "nextCount (onExit (exec calls new_container)) \<le> 1 \<and>
   count_list (notifications (onExit (exec calls new_container)) i) OnNext \<le> 1 \<and>
   count_list (notifications (onExit (exec calls new_container)) i) OnComplete \<le> 1 \<and>
   ((\<forall>x \<in> set calls. \<not> exit_trigger x) \<longrightarrow>
      nextCount (onExit (exec calls new_container)) = 0)"
    using subject_counts [OF a, of i] d by auto
  show ?thesis using e f g h by blast
qed

theorem exited_fires_exactly_once_witness:
  "exit_trigger CallNgOnDestroy \<and>
   exit_trigger (CallOnAnimationEnd \<lparr>fromState = ''visible'', toState = ''complete'',
     totalTime = 195, phaseName = ''done'', triggerName = ''state''\<rparr>) \<and>
   nextCount (onExit (exec
     ([Subscribe (AsObservable OnExitField), CallExit] @ [CallNgOnDestroy] @ [CallNgOnDestroy] @
      [MicrotaskEmpty] @ [Subscribe (AsObservable OnExitField), MicrotaskEmpty])
     new_container)) = 1 \<and>
   received (onExit (exec
     ([Subscribe (AsObservable OnExitField), CallExit] @ [CallNgOnDestroy] @ [CallNgOnDestroy] @
      [MicrotaskEmpty] @ [Subscribe (AsObservable OnExitField), MicrotaskEmpty])
     new_container)) = [(0, OnNext), (0, OnComplete), (1, OnComplete)] \<and>
   nextCount (onExit (step
     (CallOnAnimationEnd \<lparr>fromState = ''visible'', toState = ''complete'',
        totalTime = 195, phaseName = ''done'', triggerName = ''state''\<rparr>)
     (exec [Subscribe (AsObservable OnExitField), CallExit] new_container))) = 0 \<and>
   nextCount (onExit (exec
     ([Subscribe (AsObservable OnExitField), CallExit] @
      [CallOnAnimationEnd \<lparr>fromState = ''visible'', toState = ''complete'',
         totalTime = 195, phaseName = ''done'', triggerName = ''state''\<rparr>] @ [CallEnter])
     new_container)) = 0 \<and>
   received (onExit (exec
     ([Subscribe (AsObservable OnExitField), CallExit] @
      [CallOnAnimationEnd \<lparr>fromState = ''visible'', toState = ''complete'',
         totalTime = 195, phaseName = ''done'', triggerName = ''state''\<rparr>] @ [CallEnter] @
      [MicrotaskEmpty] @ [CallNgOnDestroy, MicrotaskEmpty])
     new_container)) = [(0, OnNext), (0, OnComplete)] \<and>
   nextCount (onExit (exec [Subscribe (AsObservable OnExitField), CallEnter, CallExit]
     new_container)) = 0"
  using exited_fires_exactly_once [where
      calls = "[Subscribe (AsObservable OnExitField), CallEnter, CallExit]" and i = 0
      and y = CallNgOnDestroy and c = new_container and t = CallNgOnDestroy
      and pre = "[Subscribe (AsObservable OnExitField), CallExit]"
      and mid = "[CallNgOnDestroy]"
      and post = "[Subscribe (AsObservable OnExitField), MicrotaskEmpty]"]
    exited_fires_exactly_once [where calls = "[]" and i = 0
      and y = "CallOnAnimationEnd \<lparr>fromState = ''visible'', toState = ''complete'',
         totalTime = 195, phaseName = ''done'', triggerName = ''state''\<rparr>"
      and c = "exec [Subscribe (AsObservable OnExitField), CallExit] new_container"
      and t = "CallOnAnimationEnd \<lparr>fromState = ''visible'', toState = ''complete'',
         totalTime = 195, phaseName = ''done'', triggerName = ''state''\<rparr>"
      and pre = "[Subscribe (AsObservable OnExitField), CallExit]" and mid = "[CallEnter]"
      and post = "[CallNgOnDestroy, MicrotaskEmpty]"]
  by (simp add: model_defs)

text \<open>
  The claim as stated has the signal fire at the report in scenario (a). It does not
  fire then: after \<^verbatim>\<open>exit()\<close> and the report of the transition into \<^verbatim>\<open>complete\<close> the
  subject has broadcast nothing and its subscriber has been handed nothing; the next
  emission of \<^verbatim>\<open>onMicrotaskEmpty\<close> is what fires the signal.
\<close>

theorem exited_not_fired_at_report:
  "nextCount (onExit (exec
     [Subscribe (AsObservable OnExitField), CallExit,
      CallOnAnimationEnd \<lparr>fromState = ''initial'', toState = ''complete'',
         totalTime = 0, phaseName = ''done'', triggerName = ''state''\<rparr>]
     new_container)) = 0 \<and>
   received (onExit (exec
     [Subscribe (AsObservable OnExitField), CallExit,
      CallOnAnimationEnd \<lparr>fromState = ''initial'', toState = ''complete'',
         totalTime = 0, phaseName = ''done'', triggerName = ''state''\<rparr>]
     new_container)) = [] \<and>
   received (onExit (exec
     [Subscribe (AsObservable OnExitField), CallExit,
      CallOnAnimationEnd \<lparr>fromState = ''initial'', toState = ''complete'',
         totalTime = 0, phaseName = ''done'', triggerName = ''state''\<rparr>,
      MicrotaskEmpty]
     new_container)) = [(0, OnNext), (0, OnComplete)]"
  by (simp add: model_defs)

text \<open>
  Claim C6. Destroying twice is safe. From any reachable component, a destruction
  followed by an emission of \<^verbatim>\<open>onMicrotaskEmpty\<close> leaves the exited signal fired exactly
  once; a second destruction, before that emission or after it and followed by a
  further emission, leaves the subject \<^verbatim>\<open>onExit\<close> and everything its subscribers
  have been handed as the first destruction left them. \<^verbatim>\<open>ngOnDestroy\<close> has no error
  result: it throws nothing.
\<close>

theorem destroy_twice:
  "nextCount (onExit (onMicrotaskEmpty_emit (ngOnDestroy (exec calls new_container)))) = 1 \<and>
   onExit (onMicrotaskEmpty_emit (ngOnDestroy
      (onMicrotaskEmpty_emit (ngOnDestroy (exec calls new_container))))) =
     onExit (onMicrotaskEmpty_emit (ngOnDestroy (exec calls new_container))) \<and>
   onExit (onMicrotaskEmpty_emit (ngOnDestroy (ngOnDestroy (exec calls new_container)))) =
     onExit (onMicrotaskEmpty_emit (ngOnDestroy (exec calls new_container))) \<and>
   onExit (ngOnDestroy (onMicrotaskEmpty_emit (ngOnDestroy (exec calls new_container)))) =
     onExit (onMicrotaskEmpty_emit (ngOnDestroy (exec calls new_container)))"
proof -
  let ?c = "exec calls new_container"
  let ?d = "onMicrotaskEmpty_emit (ngOnDestroy ?c)"
  have inv: "container_inv ?c" by (rule reachable_inv)
  then have invd: "container_inv ?d" by (simp add: emit_inv destroy_inv)
  have st: "isStopped (onExit ?d)" by (rule destroy_emit_stopped)
  have "nextCount (onExit ?d) = 1"
    using subject_counts [of "onExit ?d" 0] invd st by (simp add: container_inv_def)
  moreover have "onExit (onMicrotaskEmpty_emit (ngOnDestroy ?d)) = onExit ?d"
    using invd st destroy_inv [OF invd]
    by (simp add: emit_exit_stopped_same destroy_exit_same container_inv_def)
  moreover have "onExit (onMicrotaskEmpty_emit (ngOnDestroy (ngOnDestroy ?c))) = onExit ?d"
    using inv by (simp add: two_callbacks container_inv_def)
  ultimately show ?thesis by (simp add: destroy_exit_same)
qed

theorem destroy_twice_witness:
  "received (onExit (onMicrotaskEmpty_emit (ngOnDestroy (onMicrotaskEmpty_emit (ngOnDestroy
     (exec [Subscribe (AsObservable OnExitField)] new_container)))))) =
     [(0, OnNext), (0, OnComplete)] \<and>
   nextCount (onExit (onMicrotaskEmpty_emit (ngOnDestroy (onMicrotaskEmpty_emit (ngOnDestroy
     (exec [Subscribe (AsObservable OnExitField)] new_container)))))) = 1"
  using destroy_twice [of "[Subscribe (AsObservable OnExitField)]"]
  by (simp add: model_defs)

section \<open>The animation callback\<close>

text \<open>
  Claim C4, as amended. What \<^verbatim>\<open>onAnimationEnd\<close> does depends on \<open>toState\<close> alone.
  For \<^verbatim>\<open>void\<close> or \<^verbatim>\<open>complete\<close> it registers the closure of \<^verbatim>\<open>_completeExit\<close> with
  the zone and changes nothing else: both subjects and the state are as before when
  the callback returns, and the exit subject is stopped after the zone's next emission
  of \<^verbatim>\<open>onMicrotaskEmpty\<close>. For \<^verbatim>\<open>visible\<close> it finalizes the subject \<^verbatim>\<open>onEnter\<close> at
  once and changes nothing else. For any other \<open>toState\<close> it changes nothing. On a
  reachable component, finalizing a subject that is already stopped changes nothing:
  no subscriber is handed anything more.
\<close>

theorem onAnimationEnd_dispatch:
  "(toState ev = ''void'' \<or> toState ev = ''complete'' \<longrightarrow>
      onAnimationEnd ev c =
        c\<lparr>u_ngZone := (u_ngZone c)\<lparr>firstSubscribers :=
             firstSubscribers (u_ngZone c) @ [CompleteExitCallback]\<rparr>\<rparr> \<and>
      isStopped (onExit (onMicrotaskEmpty_emit (onAnimationEnd ev c)))) \<and>
   (toState ev = ''visible'' \<longrightarrow>
      onAnimationEnd ev c = c\<lparr>onEnter := subject_complete (subject_next (onEnter c))\<rparr> \<and>
      isStopped (onEnter (onAnimationEnd ev c))) \<and>
   (toState ev \<noteq> ''void'' \<and> toState ev \<noteq> ''complete'' \<and> toState ev \<noteq> ''visible'' \<longrightarrow>
      onAnimationEnd ev c = c) \<and>
   (toState ev' = toState ev \<longrightarrow> onAnimationEnd ev' c = onAnimationEnd ev c) \<and>
   (toState ev = ''visible'' \<and> isStopped (onEnter (exec calls new_container)) \<longrightarrow>
      onAnimationEnd ev (exec calls new_container) = exec calls new_container) \<and>
   (isStopped (onExit (exec calls new_container)) \<longrightarrow>
      onExit (onMicrotaskEmpty_emit (onAnimationEnd ev (exec calls new_container))) =
        onExit (exec calls new_container))"
proof -
  let ?r = "exec calls new_container"
  have inv: "container_inv ?r" by (rule reachable_inv)
  have a: "toState ev = ''void'' \<or> toState ev = ''complete'' \<Longrightarrow>
      onAnimationEnd ev c =
        c\<lparr>u_ngZone := (u_ngZone c)\<lparr>firstSubscribers :=
             firstSubscribers (u_ngZone c) @ [CompleteExitCallback]\<rparr>\<rparr>"
    by (auto simp add: onAnimationEnd_def u_completeExit_def onMicrotaskEmpty_first_subscribe_def)
  have a': "toState ev = ''void'' \<or> toState ev = ''complete'' \<Longrightarrow>
      isStopped (onExit (onMicrotaskEmpty_emit (onAnimationEnd ev c)))"
    using trigger_pending [of "CallOnAnimationEnd ev" c] by (simp add: emit_stops)
  have b: "toState ev = ''visible'' \<Longrightarrow>
      onAnimationEnd ev c = c\<lparr>onEnter := subject_complete (subject_next (onEnter c))\<rparr>"
    by (simp add: onAnimationEnd_def ngZone_run_def)
  have c: "toState ev \<noteq> ''void'' \<and> toState ev \<noteq> ''complete'' \<and> toState ev \<noteq> ''visible'' \<Longrightarrow>
      onAnimationEnd ev c = c"
    by (simp add: onAnimationEnd_def)
  have d: "toState ev' = toState ev \<Longrightarrow> onAnimationEnd ev' c = onAnimationEnd ev c"
    by (simp add: onAnimationEnd_def)
  have e: "toState ev = ''visible'' \<and> isStopped (onEnter ?r) \<Longrightarrow> onAnimationEnd ev ?r = ?r"
    using inv by (simp add: onAnimationEnd_def ngZone_run_def container_inv_def finalize_stopped)
  have f: "isStopped (onExit ?r) \<Longrightarrow>
      onExit (onMicrotaskEmpty_emit (onAnimationEnd ev ?r)) = onExit ?r"
  proof -
    assume st: "isStopped (onExit ?r)"
    have "container_inv (onAnimationEnd ev ?r)"
      using step_inv [OF inv, of "CallOnAnimationEnd ev"] by simp
    moreover have same: "onExit (onAnimationEnd ev ?r) = onExit ?r"
      by (simp add: onAnimationEnd_def u_completeExit_def ngZone_run_def Let_def)
    ultimately show ?thesis using st
      by (simp add: emit_exit_stopped_same container_inv_def)
  qed
  show ?thesis using a a' b c d e f visible_report_stops [of ev c] by blast
qed

theorem onAnimationEnd_dispatch_witness:
  "isStopped (onExit (onMicrotaskEmpty_emit (onAnimationEnd
      \<lparr>fromState = ''visible'', toState = ''complete'', totalTime = 195,
        phaseName = ''done'', triggerName = ''state''\<rparr> new_container))) \<and>
   onAnimationEnd
      \<lparr>fromState = ''visible'', toState = ''complete'', totalTime = 0,
        phaseName = ''done'', triggerName = ''state''\<rparr> new_container =
   onAnimationEnd
      \<lparr>fromState = ''visible'', toState = ''complete'', totalTime = 195,
        phaseName = ''done'', triggerName = ''state''\<rparr> new_container \<and>
   isStopped (onExit (exec [CallNgOnDestroy, MicrotaskEmpty] new_container)) \<and>
   onExit (onMicrotaskEmpty_emit (onAnimationEnd
      \<lparr>fromState = ''visible'', toState = ''complete'', totalTime = 195,
        phaseName = ''done'', triggerName = ''state''\<rparr>
      (exec [CallNgOnDestroy, MicrotaskEmpty] new_container))) =
     onExit (exec [CallNgOnDestroy, MicrotaskEmpty] new_container) \<and>
   isStopped (onEnter (exec
     [Subscribe (AsObservable OnEnterField), CallEnter,
      CallOnAnimationEnd \<lparr>fromState = ''void'', toState = ''visible'', totalTime = 225,
        phaseName = ''done'', triggerName = ''state''\<rparr>] new_container)) \<and>
   onAnimationEnd
      \<lparr>fromState = ''visible'', toState = ''visible'', totalTime = 0,
        phaseName = ''done'', triggerName = ''state''\<rparr>
      (exec
        [Subscribe (AsObservable OnEnterField), CallEnter,
         CallOnAnimationEnd \<lparr>fromState = ''void'', toState = ''visible'', totalTime = 225,
           phaseName = ''done'', triggerName = ''state''\<rparr>] new_container) =
     exec
       [Subscribe (AsObservable OnEnterField), CallEnter,
        CallOnAnimationEnd \<lparr>fromState = ''void'', toState = ''visible'', totalTime = 225,
          phaseName = ''done'', triggerName = ''state''\<rparr>] new_container \<and>
   onAnimationEnd
      \<lparr>fromState = ''void'', toState = ''initial'', totalTime = 0,
        phaseName = ''done'', triggerName = ''state''\<rparr> new_container = new_container"
  using onAnimationEnd_dispatch [of
      "\<lparr>fromState = ''visible'', toState = ''complete'', totalTime = 195,
        phaseName = ''done'', triggerName = ''state''\<rparr>" new_container
      "\<lparr>fromState = ''visible'', toState = ''complete'', totalTime = 0,
        phaseName = ''done'', triggerName = ''state''\<rparr>"
      "[CallNgOnDestroy, MicrotaskEmpty]"]
    onAnimationEnd_dispatch [of
      "\<lparr>fromState = ''visible'', toState = ''visible'', totalTime = 0,
        phaseName = ''done'', triggerName = ''state''\<rparr>" new_container
      "\<lparr>fromState = ''visible'', toState = ''visible'', totalTime = 0,
        phaseName = ''done'', triggerName = ''state''\<rparr>"
      "[Subscribe (AsObservable OnEnterField), CallEnter,
        CallOnAnimationEnd \<lparr>fromState = ''void'', toState = ''visible'', totalTime = 225,
          phaseName = ''done'', triggerName = ''state''\<rparr>]"]
    onAnimationEnd_dispatch [of
      "\<lparr>fromState = ''void'', toState = ''initial'', totalTime = 0,
        phaseName = ''done'', triggerName = ''state''\<rparr>" new_container
      "\<lparr>fromState = ''void'', toState = ''initial'', totalTime = 0,
        phaseName = ''done'', triggerName = ''state''\<rparr>" "[]"]
  by (simp add: model_defs)

text \<open>
  The claim as stated has the report itself finalize the exited signal. It does not:
  when the callback returns from a report of the transition from \<^verbatim>\<open>visible\<close> into
  \<^verbatim>\<open>complete\<close>, the exit subject is not stopped and its subscriber has been handed
  nothing.
\<close>

theorem onAnimationEnd_complete_defers:
  "toState \<lparr>fromState = ''visible'', toState = ''complete'', totalTime = 195,
            phaseName = ''done'', triggerName = ''state''\<rparr> = ''complete'' \<and>
   \<not> isStopped (onExit (onAnimationEnd
      \<lparr>fromState = ''visible'', toState = ''complete'', totalTime = 195,
        phaseName = ''done'', triggerName = ''state''\<rparr>
      (exec [Subscribe (AsObservable OnExitField), CallEnter, CallExit] new_container))) \<and>
   notifications (onExit (onAnimationEnd
      \<lparr>fromState = ''visible'', toState = ''complete'', totalTime = 195,
        phaseName = ''done'', triggerName = ''state''\<rparr>
      (exec [Subscribe (AsObservable OnExitField), CallEnter, CallExit] new_container))) 0 = []"
  by (simp add: model_defs)

section \<open>What it takes for the signals to fire\<close>

text \<open>
  Claim C5. The claim has the entered signal fire only after a call of \<^verbatim>\<open>enter()\<close>.
  The code fires it without one: on a new component, \<^verbatim>\<open>_onEnter()\<close> sets the state to
  \<^verbatim>\<open>visible\<close>, the engine reports the end of the transition from \<^verbatim>\<open>void\<close> into
  \<^verbatim>\<open>visible\<close> that it was asked for, and the subscriber is handed the value and the
  completion. The trace holds no call of \<^verbatim>\<open>enter()\<close>.
\<close>

theorem entered_fires_without_enter:
  "CallEnter \<notin> set
     [CallOnEnter, Subscribe (AsObservable OnEnterField),
      CallOnAnimationEnd \<lparr>fromState = ''void'', toState = ''visible'', totalTime = 225,
        phaseName = ''done'', triggerName = ''state''\<rparr>] \<and>
   engine_reports_requested [Initial] new_container
     [CallOnEnter, Subscribe (AsObservable OnEnterField),
      CallOnAnimationEnd \<lparr>fromState = ''void'', toState = ''visible'', totalTime = 225,
        phaseName = ''done'', triggerName = ''state''\<rparr>] \<and>
   nextCount (onEnter (exec
     [CallOnEnter, Subscribe (AsObservable OnEnterField),
      CallOnAnimationEnd \<lparr>fromState = ''void'', toState = ''visible'', totalTime = 225,
        phaseName = ''done'', triggerName = ''state''\<rparr>] new_container)) = 1 \<and>
   notifications (onEnter (exec
     [CallOnEnter, Subscribe (AsObservable OnEnterField),
      CallOnAnimationEnd \<lparr>fromState = ''void'', toState = ''visible'', totalTime = 225,
        phaseName = ''done'', triggerName = ''state''\<rparr>] new_container)) 0 =
     [OnNext, OnComplete]"
  by (simp add: model_defs)

text \<open>
  Without \<^verbatim>\<open>enter()\<close> and without \<^verbatim>\<open>_onEnter()\<close> the entered signal never fires
  (\<open>entered_needs_request\<close>), whereas the exited signal fires without \<^verbatim>\<open>exit()\<close>:
\<close>

lemma exited_fires_without_exit:
  "CallExit \<notin> set [CallNgOnDestroy, MicrotaskEmpty] \<and>
   nextCount (onExit (exec [CallNgOnDestroy, MicrotaskEmpty] new_container)) = 1"
  by (simp add: model_defs)

end
